theory Spec2Isabelle
  imports Complex_Main
begin

section \<open>Shared data: bounding boxes and citations\<close>

text \<open>
  A bounding box is the object \<^verbatim>\<open>{x0, y0, x1, y1}\<close> in source-document units. The
  coordinates arrive as JSON numbers, hence finite; they are modelled as exact reals
  (the rounding of IEEE doubles is abstracted).
\<close>

record bbox =
  x0 :: real
  y0 :: real
  x1 :: real
  y1 :: real

text \<open>
  A citation as \<^verbatim>\<open>App.handleCitationClick\<close> and \<^verbatim>\<open>ChatMessage\<close> read it:
  \<^verbatim>\<open>page\<close>, \<^verbatim>\<open>bounding_boxes\<close> (may be missing: read through \<^verbatim>\<open>?.\<close>),
  \<^verbatim>\<open>page_width\<close>, \<^verbatim>\<open>page_height\<close> and \<^verbatim>\<open>text\<close> (read through \<^verbatim>\<open>?.\<close>).
\<close>

record citation =
  page :: nat
  bounding_boxes :: "bbox list option"
  page_width :: real
  page_height :: real
  text_c :: "string option"

section \<open>ChatMessage.jsx: citation markers in an answer\<close>

text \<open>
  \<^verbatim>\<open>\d\<close> of a JavaScript regular expression: the ten ASCII digits.
\<close>

definition is_digit :: "char \<Rightarrow> bool" where
  "is_digit c = (c \<in> set ''0123456789'')"

text \<open>
  One attempt of the regular expression \<^verbatim>\<open>\[\d+\]\<close> at the head of a string: an
  opening bracket, the longest run of digits (at least one), a closing bracket. The
  result is the digits (capture group 1 of the anchored variant) and the text after
  the match. A closing bracket is no digit, so the greedy run never has to give back.
\<close>

definition match_marker :: "string \<Rightarrow> (string \<times> string) option" where
  "match_marker s =
     (case s of
        [] \<Rightarrow> None
      | c # t \<Rightarrow>
          if c = CHR ''[''
          then (case dropWhile is_digit t of
                  [] \<Rightarrow> None
                | d # rest \<Rightarrow>
                    if takeWhile is_digit t \<noteq> [] \<and> d = CHR '']''
                    then Some (takeWhile is_digit t, rest) else None)
          else None)"

lemma match_marker_shorter:
  assumes "match_marker s = Some (ds, rest)"
  shows "length rest < length s"
proof -
  from assms obtain t where s: "s = CHR ''['' # t"
    by (auto simp: match_marker_def split: list.splits if_splits)
  from assms s obtain d where d: "dropWhile is_digit t = d # rest"
    by (auto simp: match_marker_def split: list.splits if_splits)
  have "length (dropWhile is_digit t) \<le> length t"
    by (rule length_dropWhile_le)
  with d s show ?thesis by simp
qed

text \<open>
  \<^verbatim>\<open>content.split(/(\[\d+\])/g)\<close>: the scan of \<^verbatim>\<open>String.prototype.split\<close> with a
  separator that has one capture group and never matches the empty string. \<open>lit\<close>
  is the text since the end of the last match; at each position the separator is
  tried; a match closes the current piece, emits the captured marker and continues
  after it; at the end of the text the last piece is emitted (so the empty text
  gives one empty piece).
\<close>

function split_from :: "string \<Rightarrow> string \<Rightarrow> string list" where
  "split_from lit [] = [lit]"
| "split_from lit (c # cs) =
     (case match_marker (c # cs) of
        Some (ds, rest) \<Rightarrow> lit # (''['' @ ds @ '']'') # split_from [] rest
      | None \<Rightarrow> split_from (lit @ [c]) cs)"
  by pat_completeness auto
termination
  by (relation "measure (\<lambda>(lit, s). length s)") (auto dest: match_marker_shorter)

definition split_citations :: "string \<Rightarrow> string list" where
  "split_citations content_text = split_from [] content_text"

text \<open>
  \<^verbatim>\<open>part.match(/^\[(\d+)\]$/)\<close>: the whole part is one marker; the result is capture
  group 1, the digits.
\<close>

definition citationMatch :: "string \<Rightarrow> string option" where
  "citationMatch part =
     (case match_marker part of
        Some (ds, rest) \<Rightarrow> if rest = [] then Some ds else None
      | None \<Rightarrow> None)"

text \<open>
  The citation table \<^verbatim>\<open>message.citations\<close>: an object whose keys are marker numbers
  as strings. A missing key reads as \<^verbatim>\<open>undefined\<close>, here \<open>None\<close>.
\<close>

type_synonym citation_table = "string \<rightharpoonup> citation"

text \<open>
  Lines 32 to 36 of the component: for a part that is a marker, the marker number
  \<^verbatim>\<open>citationNum\<close> and the table entry \<^verbatim>\<open>citation\<close> read for it.
\<close>

definition citation_lookup :: "citation_table \<Rightarrow> string \<Rightarrow> (string \<times> citation option) option" where
  "citation_lookup tbl part =
     (case citationMatch part of
        Some citationNum \<Rightarrow> Some (citationNum, tbl citationNum)
      | None \<Rightarrow> None)"

text \<open>
  What one part is rendered as: a clickable \<^verbatim>\<open>button\<close> carrying the marker number
  and its citation, or a \<^verbatim>\<open>span\<close> of text. \<open>TextSpan part\<close> stands for
  \<^verbatim>\<open><span>{renderBasicMarkdown(part)}</span>\<close>; the markdown rendering of the span's
  text is a function of \<open>part\<close> alone.
\<close>

datatype rendered_part = CitationButton string citation | TextSpan string

definition render_part :: "citation_table \<Rightarrow> string \<Rightarrow> rendered_part" where
  "render_part tbl part =
     (case citation_lookup tbl part of
        Some (citationNum, Some c) \<Rightarrow> CitationButton citationNum c
      | Some (citationNum, None) \<Rightarrow> TextSpan part
      | None \<Rightarrow> TextSpan part)"

record message =
  role :: string
  content :: string
  citations :: "citation_table option"

datatype rendered_content = Paragraph string | MessageText "rendered_part list"

definition isUser :: "message \<Rightarrow> bool" where
  "isUser m = (role m = ''user'')"

definition parsedContent :: "message \<Rightarrow> rendered_content" where
  "parsedContent m =
     (case citations m of
        None \<Rightarrow> Paragraph (content m)
      | Some tbl \<Rightarrow>
          if isUser m then Paragraph (content m)
          else MessageText (map (render_part tbl) (split_citations (content m))))"

text \<open>
  The pieces of a split alternate: text, marker, text, ..., text. The text pieces are
  at the even positions and none of them is a marker; the pieces at the odd positions
  are markers.
\<close>

fun alternating :: "string list \<Rightarrow> bool" where
  "alternating [] = False"
| "alternating [l] = (citationMatch l = None)"
| "alternating (l # m # rest) =
     (citationMatch l = None \<and> citationMatch m \<noteq> None \<and> alternating rest)"

section \<open>PDFViewer.jsx: numbers, highlights and the viewer's state\<close>

text \<open>
  A JavaScript number that results from a division or a product: a finite value, or
  one of the three values that a division by zero produces and that products carry
  on. No operation here throws. This is an idealisation of IEEE double arithmetic:
  finite values are exact reals, with no rounding and no overflow to \<^verbatim>\<open>Infinity\<close>, and
  zero has no sign (a zero divisor counts as \<open>+0\<close>). It decides which results are
  \<^verbatim>\<open>null\<close>, finite, infinite or \<^verbatim>\<open>NaN\<close> at a zero divisor; in general it does not
  give the digits that the program computes. The statements below use it for that
  decision and, at concrete inputs, for values that double arithmetic computes without
  rounding (such as \<open>1200 / 800 = 1.5\<close> and \<open>20 * 1.5 = 30\<close>).
\<close>

datatype jsnum = Fin real | PInf | NInf | NaN

definition js_div :: "real \<Rightarrow> real \<Rightarrow> jsnum" where
  "js_div a b =
     (if b = 0 then (if a = 0 then NaN else if 0 < a then PInf else NInf)
      else Fin (a / b))"

fun js_mul :: "real \<Rightarrow> jsnum \<Rightarrow> jsnum" where
  "js_mul a (Fin b) = Fin (a * b)"
| "js_mul a PInf = (if a = 0 then NaN else if 0 < a then PInf else NInf)"
| "js_mul a NInf = (if a = 0 then NaN else if 0 < a then NInf else PInf)"
| "js_mul a NaN = NaN"

text \<open>
  The decimal digits of a natural number, as a template literal prints
  \<^verbatim>\<open>Date.now()\<close> and an array index.
\<close>

function show_nat :: "nat \<Rightarrow> string" where
  "show_nat n =
     (if n < 10 then [''0123456789'' ! n]
      else show_nat (n div 10) @ [''0123456789'' ! (n mod 10)])"
  by pat_completeness auto
termination
  by (relation "measure (\<lambda>n. n)") auto

declare show_nat.simps [simp del]

text \<open>
  One highlight of a batch: the object built in \<^verbatim>\<open>highlightAndScroll\<close>. It keeps the
  box in source units; the scaling happens when the overlay is rendered.
\<close>

record highlight =
  id_h :: string
  page :: nat
  bbox :: bbox
  sourcePageWidth :: real
  sourcePageHeight :: real

text \<open>
  \<^verbatim>\<open>boundingBoxes.map((bbox, index) => ({...}))\<close>, with \<open>now\<close> the value of
  \<^verbatim>\<open>Date.now()\<close>. The clock is read once for each box; the reads happen in one
  synchronous loop and are taken to give the same millisecond.
\<close>

definition newHighlights :: "nat \<Rightarrow> nat \<Rightarrow> bbox list \<Rightarrow> real \<Rightarrow> real \<Rightarrow> highlight list" where
  "newHighlights now pageNumber boundingBoxes pageWidth pageHeight =
     map (\<lambda>(index, b).
            \<lparr>id_h = ''highlight-'' @ show_nat now @ ''-'' @ show_nat index,
             page = pageNumber,
             bbox = b,
             sourcePageWidth = pageWidth,
             sourcePageHeight = pageHeight\<rparr>)
         (enumerate 0 boundingBoxes)"

text \<open>
  A canvas element, as far as the viewer reads it: its \<^verbatim>\<open>width\<close> and \<^verbatim>\<open>height\<close>.
\<close>

record canvas =
  width :: real
  height :: real

text \<open>
  The component's state (the \<^verbatim>\<open>useState\<close> cells and the two ref objects) and the
  part of its environment that the exposed methods touch: the clock read by
  \<^verbatim>\<open>Date.now()\<close> (milliseconds), the due times of the \<^verbatim>\<open>setTimeout\<close> callbacks that
  are still pending, and the pages whose element was asked to scroll into view.

  \<open>pageRefs\<close> is the object \<^verbatim>\<open>pageRefs.current\<close>: page index \<open>\<mapsto>\<close> element, as an
  association list; \<open>True\<close> is a mounted element, \<open>False\<close> is \<^verbatim>\<open>null\<close>.
  \<open>canvasRefs\<close> is \<^verbatim>\<open>canvasRefs.current\<close>: 1-based page number \<open>\<mapsto>\<close> canvas, where
  \<open>None\<close> stands for both a missing key and \<^verbatim>\<open>null\<close>.
  \<open>pdfDoc\<close> holds the page count of the loaded document.
\<close>

record viewer =
  pdfDoc :: "nat option"
  renderedPages :: "nat list"
  scale :: real
  totalPages :: nat
  currentPage :: nat
  isLoading :: bool
  highlights :: "highlight list"
  pageRefs :: "(nat \<times> bool) list"
  canvasRefs :: "nat \<rightharpoonup> canvas"
  clock :: nat
  timers :: "nat list"
  scrolled :: "nat list"

definition initial_viewer :: "nat \<Rightarrow> viewer" where
  "initial_viewer t0 =
     \<lparr>pdfDoc = None, renderedPages = [], scale = 1.5, totalPages = 0,
      currentPage = 1, isLoading = True, highlights = [], pageRefs = [],
      canvasRefs = Map.empty, clock = t0, timers = [], scrolled = []\<rparr>"

text \<open>
  \<^verbatim>\<open>highlightAndScroll\<close>, statement by statement: clear, build, install, scroll to the
  page if its element exists, start a timer of 8000 ms. The handle of the timer is
  not kept.
\<close>

definition highlightAndScroll :: "nat \<Rightarrow> bbox list \<Rightarrow> real \<Rightarrow> real \<Rightarrow> viewer \<Rightarrow> viewer" where
  "highlightAndScroll pageNumber boundingBoxes pageWidth pageHeight st =
     (let st1 = st\<lparr>highlights := []\<rparr>;
          st2 = st1\<lparr>highlights :=
                  newHighlights (clock st1) pageNumber boundingBoxes pageWidth pageHeight\<rparr>;
          st3 = (if map_of (pageRefs st2) pageNumber = Some True
                 then st2\<lparr>scrolled := scrolled st2 @ [pageNumber]\<rparr>
                 else st2)
      in st3\<lparr>timers := timers st3 @ [clock st3 + 8000]\<rparr>)"

definition clearHighlights :: "viewer \<Rightarrow> viewer" where
  "clearHighlights st = st\<lparr>highlights := []\<rparr>"

text \<open>
  The callback given to \<^verbatim>\<open>setTimeout\<close>: \<^verbatim>\<open>setHighlights([])\<close>.
\<close>

definition expire :: "viewer \<Rightarrow> viewer" where
  "expire st = st\<lparr>highlights := []\<rparr>"

text \<open>
  \<open>d\<close> milliseconds pass with no other event: every pending timer that is due by
  then runs its callback and leaves the pending list.
\<close>

definition elapse :: "nat \<Rightarrow> viewer \<Rightarrow> viewer" where
  "elapse d st =
     (let t = clock st + d;
          due = filter (\<lambda>x. x \<le> t) (timers st);
          st1 = fold (\<lambda>_. expire) due st
      in st1\<lparr>clock := t, timers := filter (\<lambda>x. t < x) (timers st)\<rparr>)"

text \<open>
  Loading the document: the effect on \<^verbatim>\<open>pdfUrl\<close> first shows the spinner and empties the
  page list; the load then either delivers a document of \<open>numPages\<close> pages or fails
  (the error is logged). The effect on \<^verbatim>\<open>pdfDoc\<close> and \<^verbatim>\<open>scale\<close> lists the pages
  \<open>1 .. numPages\<close>.
\<close>

definition load_start :: "viewer \<Rightarrow> viewer" where
  "load_start st = st\<lparr>isLoading := True, renderedPages := []\<rparr>"

definition load_complete :: "nat \<Rightarrow> viewer \<Rightarrow> viewer" where
  "load_complete numPages st =
     st\<lparr>pdfDoc := Some numPages, totalPages := numPages, isLoading := False\<rparr>"

definition load_failed :: "viewer \<Rightarrow> viewer" where
  "load_failed st = st\<lparr>isLoading := False\<rparr>"

definition renderAllPages :: "viewer \<Rightarrow> viewer" where
  "renderAllPages st =
     (case pdfDoc st of
        None \<Rightarrow> st
      | Some numPages \<Rightarrow> st\<lparr>renderedPages := [1 ..< numPages + 1]\<rparr>)"

text \<open>
  The zoom buttons.
\<close>

definition zoomOut :: "viewer \<Rightarrow> viewer" where
  "zoomOut st = st\<lparr>scale := max 0.5 (scale st - 0.25)\<rparr>"

definition zoomIn :: "viewer \<Rightarrow> viewer" where
  "zoomIn st = st\<lparr>scale := min 3 (scale st + 0.25)\<rparr>"

definition resetZoom :: "viewer \<Rightarrow> viewer" where
  "resetZoom st = st\<lparr>scale := 1.5\<rparr>"

text \<open>
  The ref callback of a page's canvas stores the element (or \<^verbatim>\<open>null\<close>) under the
  page number and, for an element, calls \<^verbatim>\<open>renderPage\<close>.

  \<^verbatim>\<open>renderPage\<close> is asynchronous, so it is two steps. The call checks its two guards
  (a document, a canvas for the page) and, past them, suspends at \<^verbatim>\<open>getPage\<close> holding
  what its closure captured: the page number and the \<^verbatim>\<open>scale\<close> of the render that
  created the callback. That is the \<open>render_task\<close>. The completion takes the page that
  PDF.js delivers, given here by its size at scale 1 (\<open>None\<close> is a rejected
  \<^verbatim>\<open>getPage\<close>, caught and logged), asks for the viewport at the captured scale, which
  for a page that is not rotated is the size times the scale, and assigns
  its width and height to the canvas. A canvas stores its size as an unsigned integer:
  \<open>px\<close> drops the fraction (sizes are not negative here). The element written is the
  one the call captured; React keeps the canvas element of a page as long as the page
  stays in the list, so the completion writes the canvas registered for the page, and
  writes nothing visible when none is registered any more. The completion calls no
  state setter.
\<close>

definition canvas_ref :: "nat \<Rightarrow> canvas option \<Rightarrow> viewer \<Rightarrow> viewer" where
  "canvas_ref pageNum el st = st\<lparr>canvasRefs := (canvasRefs st)(pageNum := el)\<rparr>"

record render_task =
  task_page :: nat
  task_scale :: real


definition px :: "real \<Rightarrow> real" where
  "px x = real_of_int \<lfloor>x\<rfloor>"

definition renderPage_finish :: "render_task \<Rightarrow> (real \<times> real) option \<Rightarrow> viewer \<Rightarrow> viewer" where
  "renderPage_finish task page_size st =
     (case page_size of
        None \<Rightarrow> st
      | Some (pw, ph) \<Rightarrow>
          (case canvasRefs st (task_page task) of
             None \<Rightarrow> st
           | Some cv \<Rightarrow>
               st\<lparr>canvasRefs :=
                    (canvasRefs st)(task_page task \<mapsto>
                       cv\<lparr>width := px (pw * task_scale task),
                          height := px (ph * task_scale task)\<rparr>)\<rparr>))"

text \<open>
  \<^verbatim>\<open>handleScroll\<close>. The geometry that the handler reads from the DOM at the time of
  the event: the top of the container's rectangle, the container's client height and
  the top of each page element's rectangle.
\<close>

record scroll_geometry =
  containerTop :: real
  clientHeight :: real
  rectTop :: "nat \<Rightarrow> real"

definition in_top_half :: "scroll_geometry \<Rightarrow> nat \<Rightarrow> bool" where
  "in_top_half g pageNum =
     (rectTop g pageNum \<ge> containerTop g
      \<and> rectTop g pageNum \<le> containerTop g + clientHeight g / 2)"

text \<open>
  \<^verbatim>\<open>Object.entries\<close> of an object whose keys are array indices lists them in ascending
  numeric order.
\<close>

definition object_entries :: "(nat \<times> 'a) list \<Rightarrow> (nat \<times> 'a) list" where
  "object_entries obj = sort_key fst obj"

text \<open>
  The loop over the entries: the first entry with an element whose top edge is in the
  top half of the container decides, and the loop breaks.
\<close>

fun scan_pages :: "scroll_geometry \<Rightarrow> (nat \<times> bool) list \<Rightarrow> nat option" where
  "scan_pages g [] = None"
| "scan_pages g ((pageNum, element) # rest) =
     (if element
      then (if in_top_half g pageNum then Some (pageNum + 1) else scan_pages g rest)
      else scan_pages g rest)"

definition handleScroll :: "scroll_geometry \<Rightarrow> viewer \<Rightarrow> viewer" where
  "handleScroll g st =
     (case scan_pages g (object_entries (pageRefs st)) of
        Some n \<Rightarrow> st\<lparr>currentPage := n\<rparr>
      | None \<Rightarrow> st)"

text \<open>
  \<^verbatim>\<open>getHighlightStyle\<close>: \<^verbatim>\<open>null\<close> without a canvas for the page, otherwise the style
  object. Of the style, the four lengths are kept (each is printed with the suffix
  \<^verbatim>\<open>px\<close>); the other entries are constants.
\<close>

record highlight_style =
  left_px :: jsnum
  top_px :: jsnum
  width_px :: jsnum
  height_px :: jsnum

definition getHighlightStyle :: "(nat \<rightharpoonup> canvas) \<Rightarrow> highlight \<Rightarrow> highlight_style option" where
  "getHighlightStyle refs h =
     (case refs (page h + 1) of
        None \<Rightarrow> None
      | Some cv \<Rightarrow>
          (let canvasWidth = width cv;
               canvasHeight = height cv;
               b = bbox h;
               scaleX = js_div canvasWidth (sourcePageWidth h);
               scaleY = js_div canvasHeight (sourcePageHeight h)
           in Some \<lparr>left_px = js_mul (x0 b) scaleX,
                     top_px = js_mul (y0 b) scaleY,
                     width_px = js_mul (x1 b - x0 b) scaleX,
                     height_px = js_mul (y1 b - y0 b) scaleY\<rparr>))"


text \<open>
  The events of the viewer, and a run of them from a state.
\<close>

datatype event =
    HighlightAndScroll nat "bbox list" real real
  | ClearHighlights
  | Elapse nat
  | Scroll scroll_geometry
  | ZoomOut
  | ZoomIn
  | ResetZoom
  | CanvasRef nat "canvas option"
  | RenderPage render_task "(real \<times> real) option"
  | LoadStart
  | LoadComplete nat
  | LoadFailed
  | RenderAllPages

fun step :: "event \<Rightarrow> viewer \<Rightarrow> viewer" where
  "step (HighlightAndScroll p bs w h) st = highlightAndScroll p bs w h st"
| "step ClearHighlights st = clearHighlights st"
| "step (Elapse d) st = elapse d st"
| "step (Scroll g) st = handleScroll g st"
| "step ZoomOut st = zoomOut st"
| "step ZoomIn st = zoomIn st"
| "step ResetZoom st = resetZoom st"
| "step (CanvasRef n el) st = canvas_ref n el st"
| "step (RenderPage task page_size) st = renderPage_finish task page_size st"
| "step LoadStart st = load_start st"
| "step (LoadComplete n) st = load_complete n st"
| "step LoadFailed st = load_failed st"
| "step RenderAllPages st = renderAllPages st"

fun run :: "event list \<Rightarrow> viewer \<Rightarrow> viewer" where
  "run [] st = st"
| "run (e # es) st = run es (step e st)"






section \<open>App: the bridge from a clicked citation to the viewer\<close>

text \<open>
  \<open>pdfViewerRef\<close> is \<^verbatim>\<open>pdfViewerRef.current\<close>: the mounted viewer, or \<^verbatim>\<open>null\<close>.
  \<open>console\<close> collects what \<^verbatim>\<open>console.log\<close> was given.
\<close>

record app =
  pdfViewerRef :: "viewer option"
  console :: "citation list"

definition handleCitationClick :: "citation \<Rightarrow> app \<Rightarrow> app" where
  "handleCitationClick c a =
     (let a1 = a\<lparr>console := console a @ [c]\<rparr>
      in case pdfViewerRef a1 of
           None \<Rightarrow> a1
         | Some v \<Rightarrow>
             (case bounding_boxes c of
                None \<Rightarrow> a1
              | Some bs \<Rightarrow>
                  if length bs > 0
                  then a1\<lparr>pdfViewerRef :=
                            Some (highlightAndScroll (citation.page c) bs
                                    (page_width c) (page_height c) v)\<rparr>
                  else a1))"

section \<open>Notions used to state the claims\<close>



section \<open>Properties of the marker scan\<close>

lemma match_marker_digits:
  assumes "ds \<noteq> []" and "list_all is_digit ds"
  shows "match_marker (''['' @ ds @ '']'' @ rest) = Some (ds, rest)"
proof -
  have nd: "\<not> is_digit CHR '']''"
    by (simp add: is_digit_def)
  from assms(2) have all: "\<forall>x\<in>set ds. is_digit x"
    by (simp add: list_all_iff)
  have tw: "takeWhile is_digit (ds @ CHR '']'' # rest) = ds"
    using all nd by (simp add: takeWhile_append2)
  have dw: "dropWhile is_digit (ds @ CHR '']'' # rest) = CHR '']'' # rest"
    using all nd by (simp add: dropWhile_append2)
  show ?thesis
    using assms(1) tw dw by (simp add: match_marker_def)
qed

lemma match_marker_shape:
  assumes "match_marker s = Some (ds, rest)"
  shows "s = ''['' @ ds @ '']'' @ rest \<and> ds \<noteq> [] \<and> list_all is_digit ds"
proof -
  from assms obtain t where s: "s = CHR ''['' # t"
    by (auto simp: match_marker_def split: list.splits if_splits)
  from assms s have d: "dropWhile is_digit t = CHR '']'' # rest"
    and tk: "takeWhile is_digit t = ds" and ne: "ds \<noteq> []"
    by (auto simp: match_marker_def split: list.splits if_splits)
  have "t = takeWhile is_digit t @ dropWhile is_digit t"
    by simp
  with d tk have t: "t = ds @ CHR '']'' # rest"
    by simp
  have "\<forall>x\<in>set (takeWhile is_digit t). is_digit x"
    by (auto dest: set_takeWhileD)
  with tk have "list_all is_digit ds"
    by (simp add: list_all_iff)
  with s t ne show ?thesis by simp
qed

lemma citationMatch_extends:
  assumes "citationMatch p = Some ds"
  shows "match_marker (p @ sfx) = Some (ds, sfx)"
proof -
  from assms have m: "match_marker p = Some (ds, [])"
    by (auto simp: citationMatch_def split: option.splits if_splits)
  from match_marker_shape [OF m]
  have p: "p = ''['' @ ds @ '']''" and ne: "ds \<noteq> []" and dg: "list_all is_digit ds"
    by simp_all
  from match_marker_digits [OF ne dg, of sfx] p show ?thesis
    by simp
qed

lemma citationMatch_marker:
  assumes "match_marker s = Some (ds, rest)"
  shows "citationMatch (''['' @ ds @ '']'') = Some ds"
proof -
  from match_marker_shape [OF assms] have "ds \<noteq> []" and "list_all is_digit ds"
    by simp_all
  from match_marker_digits [OF this, of "[]"] show ?thesis
    by (simp add: citationMatch_def)
qed

lemma concat_split_from: "concat (split_from lit s) = lit @ s"
proof (induction lit s rule: split_from.induct)
  case (1 lit)
  show ?case by simp
next
  case (2 lit c cs)
  show ?case
  proof (cases "match_marker (c # cs)")
    case None
    with "2.IH"(1) show ?thesis by simp
  next
    case (Some r)
    obtain ds rest where r: "r = (ds, rest)"
      by (cases r)
    from Some r have m: "match_marker (c # cs) = Some (ds, rest)"
      by simp
    from match_marker_shape [OF m] have "c # cs = ''['' @ ds @ '']'' @ rest"
      by simp
    moreover from "2.IH"(2) [OF Some r [symmetric]] have "concat (split_from [] rest) = rest"
      by simp
    ultimately show ?thesis
      using m by simp
  qed
qed

lemma alternating_split_from:
  assumes "lit = [] \<or> match_marker (lit @ s) = None"
  shows "alternating (split_from lit s)"
  using assms
proof (induction lit s rule: split_from.induct)
  case (1 lit)
  have "citationMatch lit = None"
  proof (cases "lit = []")
    case True
    then show ?thesis by (simp add: citationMatch_def match_marker_def)
  next
    case False
    with 1 show ?thesis by (simp add: citationMatch_def)
  qed
  then show ?case by simp
next
  case (2 lit c cs)
  have lit_plain: "citationMatch lit = None"
  proof (cases "lit = []")
    case True
    then show ?thesis by (simp add: citationMatch_def match_marker_def)
  next
    case False
    with "2.prems" have none: "match_marker (lit @ c # cs) = None"
      by simp
    show ?thesis
    proof (cases "citationMatch lit")
      case None
      then show ?thesis .
    next
      case (Some ds)
      from citationMatch_extends [OF Some, of "c # cs"] none show ?thesis
        by simp
    qed
  qed
  show ?case
  proof (cases "match_marker (c # cs)")
    case None
    have "lit @ [c] = [] \<or> match_marker ((lit @ [c]) @ cs) = None"
    proof (cases "lit = []")
      case True
      with None show ?thesis by simp
    next
      case False
      with "2.prems" show ?thesis by simp
    qed
    from "2.IH"(1) [OF None this] None show ?thesis
      by simp
  next
    case (Some r)
    obtain ds rest where r: "r = (ds, rest)"
      by (cases r)
    from Some r have m: "match_marker (c # cs) = Some (ds, rest)"
      by simp
    have "alternating (split_from [] rest)"
      using "2.IH"(2) [OF Some r [symmetric]] by simp
    moreover from citationMatch_marker [OF m]
    have "citationMatch (''['' @ ds @ '']'') \<noteq> None"
      by simp
    ultimately show ?thesis
      using m lit_plain by simp
  qed
qed

lemma match_marker_append:
  assumes "match_marker s = Some (es, r)"
  shows "match_marker (s @ sfx) = Some (es, r @ sfx)"
proof -
  from match_marker_shape [OF assms]
  have s: "s = ''['' @ es @ '']'' @ r" and ne: "es \<noteq> []" and dg: "list_all is_digit es"
    by simp_all
  from match_marker_digits [OF ne dg, of "r @ sfx"] s show ?thesis
    by simp
qed

lemma match_marker_before_bracket:
  assumes "match_marker (c # cs @ CHR ''['' # sfx) = Some (es, rest)"
  shows "\<exists>r. match_marker (c # cs) = Some (es, r) \<and> rest = r @ CHR ''['' # sfx"
proof -
  have nd: "\<not> is_digit CHR ''[''"
    by (simp add: is_digit_def)
  from assms have c: "c = CHR ''[''"
    by (auto simp: match_marker_def split: if_splits)
  from assms c have d: "dropWhile is_digit (cs @ CHR ''['' # sfx) = CHR '']'' # rest"
    and tk: "takeWhile is_digit (cs @ CHR ''['' # sfx) = es" and ne: "es \<noteq> []"
    by (auto simp: match_marker_def split: list.splits if_splits)
  have ex: "\<exists>x\<in>set cs. \<not> is_digit x"
  proof (rule ccontr)
    assume "\<not> (\<exists>x\<in>set cs. \<not> is_digit x)"
    then have "\<forall>x\<in>set cs. is_digit x" by blast
    with nd have "dropWhile is_digit (cs @ CHR ''['' # sfx) = CHR ''['' # sfx"
      by (simp add: dropWhile_append2)
    with d show False by simp
  qed
  from ex obtain x where x: "x \<in> set cs" "\<not> is_digit x"
    by blast
  have tk': "takeWhile is_digit (cs @ CHR ''['' # sfx) = takeWhile is_digit cs"
    using x by (rule takeWhile_append1 [where P = is_digit])
  have d': "dropWhile is_digit (cs @ CHR ''['' # sfx) = dropWhile is_digit cs @ CHR ''['' # sfx"
    using x by (rule dropWhile_append1 [where P = is_digit])
  from ex have "dropWhile is_digit cs \<noteq> []"
    by (simp add: dropWhile_eq_Nil_conv)
  then obtain d0 r where dr: "dropWhile is_digit cs = d0 # r"
    by (cases "dropWhile is_digit cs") auto
  with d d' have d0: "d0 = CHR '']''" and rest: "rest = r @ CHR ''['' # sfx"
    by simp_all
  from c dr d0 tk tk' ne have "match_marker (c # cs) = Some (es, r)"
    by (simp add: match_marker_def)
  with rest show ?thesis by blast
qed

lemma split_from_marker:
  assumes "ds \<noteq> []" and "list_all is_digit ds"
  shows "split_from lit (pre @ ''['' @ ds @ '']'' @ post) =
         split_from lit pre @ (''['' @ ds @ '']'') # split_from [] post"
proof (induction lit pre rule: split_from.induct)
  case (1 lit)
  from match_marker_digits [OF assms, of post] show ?case
    by simp
next
  case (2 lit c cs)
  let ?sfx = "ds @ '']'' @ post"
  show ?case
  proof (cases "match_marker (c # cs)")
    case None
    have "match_marker (c # cs @ CHR ''['' # ?sfx) = None"
    proof (cases "match_marker (c # cs @ CHR ''['' # ?sfx)")
      case None
      then show ?thesis .
    next
      case (Some q)
      obtain es rest where "q = (es, rest)" by (cases q)
      with Some match_marker_before_bracket [of c cs ?sfx es rest] None show ?thesis
        by auto
    qed
    with None "2.IH"(1) [OF None] show ?thesis
      by simp
  next
    case (Some q)
    obtain es r where q: "q = (es, r)" by (cases q)
    with Some have m: "match_marker (c # cs) = Some (es, r)" by simp
    from match_marker_append [OF m, of "CHR ''['' # ?sfx"]
    have "match_marker (c # cs @ CHR ''['' # ?sfx) = Some (es, r @ CHR ''['' # ?sfx)"
      by simp
    with m "2.IH"(2) [OF Some q [symmetric]] show ?thesis
      by simp
  qed
qed

lemma render_part_marker:
  assumes "ds \<noteq> []" and "list_all is_digit ds"
  shows "citation_lookup tbl (''['' @ ds @ '']'') = Some (ds, tbl ds)"
proof -
  from match_marker_digits [OF assms, of "[]"]
  have "citationMatch (''['' @ ds @ '']'') = Some ds"
    by (simp add: citationMatch_def)
  then show ?thesis
    by (simp add: citation_lookup_def)
qed

lemma parsedContent_assistant:
  "parsedContent \<lparr>role = ''assistant'', content = answer, citations = Some tbl\<rparr> =
   MessageText (map (render_part tbl) (split_citations answer))"
  by (simp add: parsedContent_def isUser_def)

lemma split_see_1_2:
  "split_citations ''See [1] and [2].'' = [''See '', ''[1]'', '' and '', ''[2]'', ''.'']"
  by (simp add: split_citations_def match_marker_def is_digit_def)

lemma split_see_9:
  "split_citations ''See [9].'' = [''See '', ''[9]'', ''.'']"
  by (simp add: split_citations_def match_marker_def is_digit_def)

section \<open>The claims about the citation parser\<close>

text \<open>
  Claim C6. For every answer text and citation table, the rendering of an assistant
  message is the map of \<open>render_part\<close> over the split of the text; the pieces of the
  split put together give the text back; they alternate between text that is no
  marker and markers; a marker \<^verbatim>\<open>[digits]\<close> anywhere in the text is a piece of its own,
  between the split of what precedes it and the split of what follows it (so adjacent
  markers are separate pieces, with an empty text piece between them); a marker whose
  digits are a key of the table is rendered as the button of that citation. In
  particular \<^verbatim>\<open>See [1] and [2].\<close> with the table \<^verbatim>\<open>{1: ca, 2: cb}\<close> gives the text
  \<^verbatim>\<open>See \<close>, the reference 1 to \<open>ca\<close>, the text \<^verbatim>\<open> and \<close>, the reference 2 to
  \<open>cb\<close>, and the text \<^verbatim>\<open>.\<close>.
\<close>

theorem parse_tokenizes_markers:
  "parsedContent \<lparr>role = ''assistant'', content = answer, citations = Some tbl\<rparr> =
     MessageText (map (render_part tbl) (split_citations answer))
   \<and> concat (split_citations answer) = answer
   \<and> alternating (split_citations answer)
   \<and> (ds \<noteq> [] \<and> list_all is_digit ds \<longrightarrow>
        split_citations (pre @ ''['' @ ds @ '']'' @ post) =
          split_citations pre @ (''['' @ ds @ '']'') # split_citations post)
   \<and> (ds \<noteq> [] \<and> list_all is_digit ds \<and> tbl ds = Some c \<longrightarrow>
        render_part tbl (''['' @ ds @ '']'') = CitationButton ds c)
   \<and> parsedContent \<lparr>role = ''assistant'', content = ''See [1] and [2].'',
                     citations = Some [''1'' \<mapsto> ca, ''2'' \<mapsto> cb]\<rparr> =
       MessageText [TextSpan ''See '', CitationButton ''1'' ca, TextSpan '' and '',
                    CitationButton ''2'' cb, TextSpan ''.'']"
proof (intro conjI impI)
  show "parsedContent \<lparr>role = ''assistant'', content = answer, citations = Some tbl\<rparr> =
     MessageText (map (render_part tbl) (split_citations answer))"
    by (rule parsedContent_assistant)
  show "concat (split_citations answer) = answer"
    by (simp add: split_citations_def concat_split_from)
  show "alternating (split_citations answer)"
    by (simp add: split_citations_def alternating_split_from)
next
  assume "ds \<noteq> [] \<and> list_all is_digit ds"
  then show "split_citations (pre @ ''['' @ ds @ '']'' @ post) =
          split_citations pre @ (''['' @ ds @ '']'') # split_citations post"
    unfolding split_citations_def by (intro split_from_marker) simp_all
next
  assume a: "ds \<noteq> [] \<and> list_all is_digit ds \<and> tbl ds = Some c"
  then have "citation_lookup tbl (''['' @ ds @ '']'') = Some (ds, Some c)"
    using render_part_marker [of ds tbl] by simp
  then show "render_part tbl (''['' @ ds @ '']'') = CitationButton ds c"
    by (simp add: render_part_def)
next
  have "citationMatch ''[1]'' = Some ''1''" and "citationMatch ''[2]'' = Some ''2''"
    and "citationMatch ''See '' = None" and "citationMatch '' and '' = None"
    and "citationMatch ''.'' = None"
    by (simp_all add: citationMatch_def match_marker_def is_digit_def)
  then show "parsedContent \<lparr>role = ''assistant'', content = ''See [1] and [2].'',
                     citations = Some [''1'' \<mapsto> ca, ''2'' \<mapsto> cb]\<rparr> =
       MessageText [TextSpan ''See '', CitationButton ''1'' ca, TextSpan '' and '',
                    CitationButton ''2'' cb, TextSpan ''.'']"
    by (simp add: parsedContent_assistant split_see_1_2 render_part_def citation_lookup_def)
qed

theorem parse_tokenizes_markers_witness:
  "''2'' \<noteq> [] \<and> list_all is_digit ''2''
   \<and> [''2'' \<mapsto> \<lparr>citation.page = 0, bounding_boxes = None, page_width = 612,
                   page_height = 792, text_c = None\<rparr>] ''2''
       = Some \<lparr>citation.page = 0, bounding_boxes = None, page_width = 612,
                page_height = 792, text_c = None\<rparr>
   \<and> split_citations (''[1]'' @ ''['' @ ''2'' @ '']'' @ ''!'') =
       split_citations ''[1]'' @ (''['' @ ''2'' @ '']'') # split_citations ''!''
   \<and> split_citations ''[1][2]!'' = [[], ''[1]'', [], ''[2]'', ''!'']
   \<and> render_part [''2'' \<mapsto> \<lparr>citation.page = 0, bounding_boxes = None, page_width = 612,
                   page_height = 792, text_c = None\<rparr>] (''['' @ ''2'' @ '']'')
       = CitationButton ''2'' \<lparr>citation.page = 0, bounding_boxes = None, page_width = 612,
                   page_height = 792, text_c = None\<rparr>"
proof -
  let ?c = "\<lparr>citation.page = 0, bounding_boxes = None, page_width = 612,
              page_height = 792, text_c = None\<rparr>"
  have h: "''2'' \<noteq> [] \<and> list_all is_digit ''2''"
    by (simp add: is_digit_def)
  have k: "[''2'' \<mapsto> ?c] ''2'' = Some ?c"
    by simp
  have e: "split_citations ''[1][2]!'' = [[], ''[1]'', [], ''[2]'', ''!'']"
    by (simp add: split_citations_def match_marker_def is_digit_def)
  from parse_tokenizes_markers [where ds = "''2''" and pre = "''[1]''" and post = "''!''"
      and tbl = "[''2'' \<mapsto> ?c]" and c = "?c" and answer = "''[1][2]!''" and ca = "?c" and cb = "?c"]
  have "split_citations (''[1]'' @ ''['' @ ''2'' @ '']'' @ ''!'') =
          split_citations ''[1]'' @ (''['' @ ''2'' @ '']'') # split_citations ''!''"
    and "render_part [''2'' \<mapsto> ?c] (''['' @ ''2'' @ '']'') = CitationButton ''2'' ?c"
    using h k by blast+
  with h k e show ?thesis by blast
qed

text \<open>
  Claim C7. A marker whose digits are no key of the citation table is no error. The
  component recognises it as a marker (\<open>citation_lookup\<close> gives its number with no
  citation) and renders it as a span of plain text holding the marker itself, the
  same element as for text outside markers; the parts before and after it are
  rendered as they are on their own. \<open>parsedContent\<close> is a total function into
  \<open>rendered_content\<close>, which has no error value: nothing on this path throws. In
  particular \<^verbatim>\<open>See [9].\<close> with the table \<^verbatim>\<open>{1: ca}\<close> gives marker 9 with no citation,
  rendered as the plain text \<^verbatim>\<open>[9]\<close>.
\<close>

theorem unknown_marker_is_plain_text:
  "(ds \<noteq> [] \<and> list_all is_digit ds \<and> tbl ds = None \<longrightarrow>
      citation_lookup tbl (''['' @ ds @ '']'') = Some (ds, None)
      \<and> render_part tbl (''['' @ ds @ '']'') = TextSpan (''['' @ ds @ '']'')
      \<and> parsedContent \<lparr>role = ''assistant'', content = pre @ ''['' @ ds @ '']'' @ post,
                        citations = Some tbl\<rparr> =
          MessageText (map (render_part tbl) (split_citations pre)
                       @ TextSpan (''['' @ ds @ '']'')
                       # map (render_part tbl) (split_citations post)))
   \<and> map (citation_lookup [''1'' \<mapsto> ca]) (split_citations ''See [9].'') =
       [None, Some (''9'', None), None]
   \<and> parsedContent \<lparr>role = ''assistant'', content = ''See [9].'',
                     citations = Some [''1'' \<mapsto> ca]\<rparr> =
       MessageText [TextSpan ''See '', TextSpan ''[9]'', TextSpan ''.'']"
proof (intro conjI impI)
  assume a: "ds \<noteq> [] \<and> list_all is_digit ds \<and> tbl ds = None"
  then have ne: "ds \<noteq> []" and dg: "list_all is_digit ds" and un: "tbl ds = None"
    by simp_all
  from render_part_marker [OF ne dg, of tbl] un
  show lk: "citation_lookup tbl (''['' @ ds @ '']'') = Some (ds, None)"
    by simp
  then show rp: "render_part tbl (''['' @ ds @ '']'') = TextSpan (''['' @ ds @ '']'')"
    by (simp add: render_part_def)
  have "split_citations (pre @ ''['' @ ds @ '']'' @ post) =
          split_citations pre @ (''['' @ ds @ '']'') # split_citations post"
    unfolding split_citations_def using ne dg by (intro split_from_marker)
  with rp show "parsedContent \<lparr>role = ''assistant'', content = pre @ ''['' @ ds @ '']'' @ post,
                        citations = Some tbl\<rparr> =
          MessageText (map (render_part tbl) (split_citations pre)
                       @ TextSpan (''['' @ ds @ '']'')
                       # map (render_part tbl) (split_citations post))"
    by (simp add: parsedContent_assistant)
next
  have m: "citationMatch ''[9]'' = Some ''9''" "citationMatch ''See '' = None"
    "citationMatch ''.'' = None"
    by (simp_all add: citationMatch_def match_marker_def is_digit_def)
  then show "map (citation_lookup [''1'' \<mapsto> ca]) (split_citations ''See [9].'') =
       [None, Some (''9'', None), None]"
    by (simp add: split_see_9 citation_lookup_def)
  from m show "parsedContent \<lparr>role = ''assistant'', content = ''See [9].'',
                     citations = Some [''1'' \<mapsto> ca]\<rparr> =
       MessageText [TextSpan ''See '', TextSpan ''[9]'', TextSpan ''.'']"
    by (simp add: parsedContent_assistant split_see_9 render_part_def citation_lookup_def)
qed

theorem unknown_marker_is_plain_text_witness:
  "''9'' \<noteq> [] \<and> list_all is_digit ''9''
   \<and> [''1'' \<mapsto> \<lparr>citation.page = 0, bounding_boxes = None, page_width = 612,
                   page_height = 792, text_c = None\<rparr>] ''9'' = None
   \<and> citation_lookup [''1'' \<mapsto> \<lparr>citation.page = 0, bounding_boxes = None, page_width = 612,
                   page_height = 792, text_c = None\<rparr>] (''['' @ ''9'' @ '']'') = Some (''9'', None)
   \<and> render_part [''1'' \<mapsto> \<lparr>citation.page = 0, bounding_boxes = None, page_width = 612,
                   page_height = 792, text_c = None\<rparr>] (''['' @ ''9'' @ '']'')
       = TextSpan (''['' @ ''9'' @ '']'')"
proof -
  let ?c = "\<lparr>citation.page = 0, bounding_boxes = None, page_width = 612,
              page_height = 792, text_c = None\<rparr>"
  have h: "''9'' \<noteq> [] \<and> list_all is_digit ''9'' \<and> [''1'' \<mapsto> ?c] ''9'' = None"
    by (simp add: is_digit_def)
  from unknown_marker_is_plain_text [where ds = "''9''" and tbl = "[''1'' \<mapsto> ?c]"
      and pre = "''See ''" and post = "''.''" and ca = "?c"] h
  have "citation_lookup [''1'' \<mapsto> ?c] (''['' @ ''9'' @ '']'') = Some (''9'', None)"
    and "render_part [''1'' \<mapsto> ?c] (''['' @ ''9'' @ '']'') = TextSpan (''['' @ ''9'' @ '']'')"
    by blast+
  with h show ?thesis by blast
qed

section \<open>Properties of the viewer's operations\<close>

lemma highlights_highlightAndScroll:
  "highlights (highlightAndScroll p bs w h st) = newHighlights (clock st) p bs w h"
  by (simp add: highlightAndScroll_def Let_def)

lemma timers_highlightAndScroll:
  "timers (highlightAndScroll p bs w h st) = timers st @ [clock st + 8000]"
  by (simp add: highlightAndScroll_def Let_def)

lemma clock_highlightAndScroll:
  "clock (highlightAndScroll p bs w h st) = clock st"
  by (simp add: highlightAndScroll_def Let_def)

lemma fold_expire:
  "highlights (fold (\<lambda>_. expire) due st) = (if due = [] then highlights st else [])"
  by (induction due arbitrary: st) (simp_all add: expire_def)

lemma highlights_elapse:
  "highlights (elapse d st) =
     (if filter (\<lambda>x. x \<le> clock st + d) (timers st) = [] then highlights st else [])"
  by (simp add: elapse_def Let_def fold_expire)




lemma map_bbox_newHighlights: "map bbox (newHighlights t p bs w h) = bs"
proof -
  have "map bbox (newHighlights t p bs w h) = map snd (enumerate 0 bs)"
    by (simp add: newHighlights_def split_def comp_def)
  then show ?thesis by (simp add: enumerate_eq_zip)
qed

lemma list_all_newHighlights:
  "list_all (\<lambda>x. page x = p \<and> sourcePageWidth x = w \<and> sourcePageHeight x = h)
     (newHighlights t p bs w h)"
  by (simp add: newHighlights_def list_all_iff split_def)

lemma newHighlights_Nil: "newHighlights t p [] w h = []"
  by (simp add: newHighlights_def)

lemma highlights_handleScroll: "highlights (handleScroll g st) = highlights st"
  by (simp add: handleScroll_def split: option.splits)

lemma highlights_renderPage:
  "highlights (renderPage_finish task page_size st) = highlights st"
  by (simp add: renderPage_finish_def split: option.splits prod.splits)

lemma batch_step:
  assumes "\<exists>t p bs w h. highlights st = newHighlights t p bs w h"
  shows "\<exists>t p bs w h. highlights (step e st) = newHighlights t p bs w h"
proof (cases e)
  case (HighlightAndScroll p bs w h)
  have "highlights (highlightAndScroll p bs w h st) = newHighlights (clock st) p bs w h"
    by (rule highlights_highlightAndScroll)
  with HighlightAndScroll show ?thesis
    by (metis step.simps(1))
next
  case ClearHighlights
  have "highlights (clearHighlights st) = newHighlights 0 0 [] 0 0"
    by (simp add: clearHighlights_def newHighlights_Nil)
  with ClearHighlights show ?thesis
    by (metis step.simps(2))
next
  case (Elapse d)
  show ?thesis
  proof (cases "filter (\<lambda>x. x \<le> clock st + d) (timers st) = []")
    case True
    with Elapse assms show ?thesis
      by (simp add: highlights_elapse)
  next
    case False
    then have "highlights (elapse d st) = newHighlights 0 0 [] 0 0"
      by (simp add: highlights_elapse newHighlights_Nil)
    with Elapse show ?thesis
      by (metis step.simps(3))
  qed
next
  case (Scroll g)
  with assms show ?thesis by (simp add: highlights_handleScroll)
next
  case ZoomOut
  with assms show ?thesis by (simp add: zoomOut_def)
next
  case ZoomIn
  with assms show ?thesis by (simp add: zoomIn_def)
next
  case ResetZoom
  with assms show ?thesis by (simp add: resetZoom_def)
next
  case (CanvasRef n el)
  with assms show ?thesis by (simp add: canvas_ref_def)
next
  case (RenderPage task page_size)
  with assms show ?thesis by (simp add: highlights_renderPage)
next
  case LoadStart
  with assms show ?thesis by (simp add: load_start_def)
next
  case (LoadComplete n)
  with assms show ?thesis by (simp add: load_complete_def)
next
  case LoadFailed
  with assms show ?thesis by (simp add: load_failed_def)
next
  case RenderAllPages
  with assms show ?thesis by (simp add: renderAllPages_def split: option.splits)
qed

lemma batch_run:
  assumes "\<exists>t p bs w h. highlights st = newHighlights t p bs w h"
  shows "\<exists>t p bs w h. highlights (run evs st) = newHighlights t p bs w h"
  using assms
proof (induction evs arbitrary: st)
  case Nil
  then show ?case by simp
next
  case (Cons e evs)
  from Cons.prems have "\<exists>t p bs w h. highlights (step e st) = newHighlights t p bs w h"
    by (rule batch_step)
  then show ?case
    using Cons.IH by simp
qed









lemma scan_pages_Some:
  assumes "sorted (map fst es)" and "scan_pages g es = Some n"
  shows "\<exists>j. n = j + 1 \<and> (j, True) \<in> set es \<and> in_top_half g j
             \<and> (\<forall>i. (i, True) \<in> set es \<and> in_top_half g i \<longrightarrow> j \<le> i)"
  using assms
proof (induction es)
  case Nil
  then show ?case by simp
next
  case (Cons e es)
  obtain k el where e: "e = (k, el)" by (cases e)
  from Cons.prems(1) e have lower: "\<forall>x\<in>set es. k \<le> fst x" and sorted_rest: "sorted (map fst es)"
    by simp_all
  show ?case
  proof (cases "el \<and> in_top_half g k")
    case True
    with Cons.prems(2) e have n: "n = k + 1" by simp
    have "\<forall>i. (i, True) \<in> set (e # es) \<and> in_top_half g i \<longrightarrow> k \<le> i"
      using lower e by auto
    with n True e show ?thesis by auto
  next
    case False
    with Cons.prems(2) e have "scan_pages g es = Some n"
      by (auto split: if_splits)
    from Cons.IH [OF sorted_rest this] obtain j where j: "n = j + 1" "(j, True) \<in> set es"
      "in_top_half g j" "\<forall>i. (i, True) \<in> set es \<and> in_top_half g i \<longrightarrow> j \<le> i"
      by blast
    have "\<forall>i. (i, True) \<in> set (e # es) \<and> in_top_half g i \<longrightarrow> j \<le> i"
      using j(4) False e by auto
    with j show ?thesis by auto
  qed
qed

lemma scan_pages_None:
  "(scan_pages g es = None) = (\<forall>i. (i, True) \<in> set es \<longrightarrow> \<not> in_top_half g i)"
proof (induction es)
  case Nil
  show ?case by simp
next
  case (Cons e es)
  obtain k el where e: "e = (k, el)" by (cases e)
  show ?case
  proof (cases "el \<and> in_top_half g k")
    case True
    with e show ?thesis by auto
  next
    case False
    with e have "scan_pages g (e # es) = scan_pages g es"
      by auto
    moreover from False e
    have "(\<forall>i. (i, True) \<in> set (e # es) \<longrightarrow> \<not> in_top_half g i) =
          (\<forall>i. (i, True) \<in> set es \<longrightarrow> \<not> in_top_half g i)"
      by auto
    ultimately show ?thesis
      using Cons.IH by simp
  qed
qed

lemma sorted_object_entries: "sorted (map fst (object_entries obj))"
  by (simp add: object_entries_def)

lemma set_object_entries: "set (object_entries obj) = set obj"
  by (simp add: object_entries_def)

section \<open>The claims about the highlight batch and its timer\<close>

text \<open>
  Claim C1, evaluated where the code departs from it. A first call of
  \<^verbatim>\<open>highlightAndScroll\<close> at time 0 and a second call at time 2000. After the second call
  both timers are pending (due at 8000 and at 10000): the timer of the old batch was not
  cancelled. At time 8000 its callback runs, compares nothing, and empties the
  highlight set, although the batch then installed is the newer one, 6000 ms old, whose
  own timer (due at 10000) is still pending: the stale timer has cleared the newer
  batch.
\<close>

theorem stale_timer_clears_newer_batch:
  "timers (highlightAndScroll 1 [\<lparr>x0 = 5, y0 = 6, x1 = 7, y1 = 8\<rparr>] 612 792
            (elapse 2000
              (highlightAndScroll 0 [\<lparr>x0 = 1, y0 = 2, x1 = 3, y1 = 4\<rparr>] 612 792
                (initial_viewer 0))))
     = [8000, 10000]
   \<and> length (highlights (highlightAndScroll 1 [\<lparr>x0 = 5, y0 = 6, x1 = 7, y1 = 8\<rparr>] 612 792
            (elapse 2000
              (highlightAndScroll 0 [\<lparr>x0 = 1, y0 = 2, x1 = 3, y1 = 4\<rparr>] 612 792
                (initial_viewer 0))))) = 1
   \<and> clock (elapse 6000 (highlightAndScroll 1 [\<lparr>x0 = 5, y0 = 6, x1 = 7, y1 = 8\<rparr>] 612 792
            (elapse 2000
              (highlightAndScroll 0 [\<lparr>x0 = 1, y0 = 2, x1 = 3, y1 = 4\<rparr>] 612 792
                (initial_viewer 0)))))
     = 8000
   \<and> highlights (elapse 6000 (highlightAndScroll 1 [\<lparr>x0 = 5, y0 = 6, x1 = 7, y1 = 8\<rparr>] 612 792
            (elapse 2000
              (highlightAndScroll 0 [\<lparr>x0 = 1, y0 = 2, x1 = 3, y1 = 4\<rparr>] 612 792
                (initial_viewer 0)))))
     = []
   \<and> timers (elapse 6000 (highlightAndScroll 1 [\<lparr>x0 = 5, y0 = 6, x1 = 7, y1 = 8\<rparr>] 612 792
            (elapse 2000
              (highlightAndScroll 0 [\<lparr>x0 = 1, y0 = 2, x1 = 3, y1 = 4\<rparr>] 612 792
                (initial_viewer 0)))))
     = [10000]"
  by (simp add: highlightAndScroll_def elapse_def expire_def initial_viewer_def
      newHighlights_def Let_def)

text \<open>
  Claim C2. After a second call of \<^verbatim>\<open>highlightAndScroll\<close>, whatever happened between
  the two calls, the highlight set is exactly the batch built from the second call:
  one highlight per bounding box, in the order of the list, with that call's page and
  source dimensions. And in every state that a run of events reaches from the initial
  state, the highlight set is the batch of a single call (the empty set being the batch
  of no boxes): there is never a merge of two batches.
\<close>

theorem second_call_leaves_its_batch_only:
  "highlights (highlightAndScroll p2 bs2 w2 h2
       (run evs (highlightAndScroll p1 bs1 w1 h1 st))) =
     newHighlights (clock (run evs (highlightAndScroll p1 bs1 w1 h1 st))) p2 bs2 w2 h2
   \<and> map bbox (highlights (highlightAndScroll p2 bs2 w2 h2
       (run evs (highlightAndScroll p1 bs1 w1 h1 st)))) = bs2
   \<and> list_all (\<lambda>x. page x = p2 \<and> sourcePageWidth x = w2 \<and> sourcePageHeight x = h2)
       (highlights (highlightAndScroll p2 bs2 w2 h2
         (run evs (highlightAndScroll p1 bs1 w1 h1 st))))
   \<and> (\<exists>t p bs w h. highlights (run evs0 (initial_viewer t0)) = newHighlights t p bs w h)"
proof (intro conjI)
  show "highlights (highlightAndScroll p2 bs2 w2 h2
       (run evs (highlightAndScroll p1 bs1 w1 h1 st))) =
     newHighlights (clock (run evs (highlightAndScroll p1 bs1 w1 h1 st))) p2 bs2 w2 h2"
    by (rule highlights_highlightAndScroll)
  then show "map bbox (highlights (highlightAndScroll p2 bs2 w2 h2
       (run evs (highlightAndScroll p1 bs1 w1 h1 st)))) = bs2"
    by (simp add: map_bbox_newHighlights)
  show "list_all (\<lambda>x. page x = p2 \<and> sourcePageWidth x = w2 \<and> sourcePageHeight x = h2)
       (highlights (highlightAndScroll p2 bs2 w2 h2
         (run evs (highlightAndScroll p1 bs1 w1 h1 st))))"
    unfolding highlights_highlightAndScroll by (rule list_all_newHighlights)
  have "highlights (initial_viewer t0) = newHighlights 0 0 [] 0 0"
    by (simp add: initial_viewer_def newHighlights_Nil)
  then have "\<exists>t p bs w h. highlights (initial_viewer t0) = newHighlights t p bs w h"
    by blast
  then show "\<exists>t p bs w h. highlights (run evs0 (initial_viewer t0)) = newHighlights t p bs w h"
    by (rule batch_run)
qed

text \<open>
  Claim C9, evaluated where the code departs from it. A first batch is created at time
  0 and a second one at time 5000. The second batch is neither superseded nor cleared,
  yet at time 8000, which is 3000 ms after its creation, the highlight set is empty:
  the timer of the first batch, never cancelled, has cleared it.
\<close>

theorem second_batch_cleared_after_three_seconds:
  "highlights (highlightAndScroll 2 [\<lparr>x0 = 50, y0 = 60, x1 = 70, y1 = 80\<rparr>] 612 792
       (elapse 5000
         (highlightAndScroll 0 [\<lparr>x0 = 10, y0 = 20, x1 = 30, y1 = 40\<rparr>] 612 792
           (initial_viewer 0)))) =
     newHighlights 5000 2 [\<lparr>x0 = 50, y0 = 60, x1 = 70, y1 = 80\<rparr>] 612 792
   \<and> highlights (elapse 3000
       (highlightAndScroll 2 [\<lparr>x0 = 50, y0 = 60, x1 = 70, y1 = 80\<rparr>] 612 792
         (elapse 5000
           (highlightAndScroll 0 [\<lparr>x0 = 10, y0 = 20, x1 = 30, y1 = 40\<rparr>] 612 792
             (initial_viewer 0))))) = []
   \<and> clock (elapse 3000
       (highlightAndScroll 2 [\<lparr>x0 = 50, y0 = 60, x1 = 70, y1 = 80\<rparr>] 612 792
         (elapse 5000
           (highlightAndScroll 0 [\<lparr>x0 = 10, y0 = 20, x1 = 30, y1 = 40\<rparr>] 612 792
             (initial_viewer 0))))) = 8000"
  by (simp add: highlightAndScroll_def elapse_def expire_def initial_viewer_def Let_def)

text \<open>
  Where no earlier timer is pending, the batch does live for 8000 ms: it is still
  there after any shorter time and gone after 8000 ms.
\<close>

lemma fresh_batch_lives_8000:
  assumes "timers st = []"
  shows "d < 8000 \<Longrightarrow>
           highlights (elapse d (highlightAndScroll p bs w h st)) = newHighlights (clock st) p bs w h"
    and "8000 \<le> d \<Longrightarrow> highlights (elapse d (highlightAndScroll p bs w h st)) = []"
  using assms
  by (simp_all add: highlights_elapse timers_highlightAndScroll clock_highlightAndScroll
      highlights_highlightAndScroll)

section \<open>The claim about the coordinate mapping\<close>

text \<open>
  Claim C3, as amended. \<^verbatim>\<open>getHighlightStyle\<close> returns \<^verbatim>\<open>null\<close> exactly when the canvas of
  the target page does not exist. (Zero source dimensions are not checked: with a
  canvas, a style object is returned.)
\<close>

theorem style_is_null_iff_canvas_missing:
  "(getHighlightStyle refs h = None) = (refs (page h + 1) = None)"
  by (simp add: getHighlightStyle_def Let_def split: option.splits)

text \<open>
  Claim C3 as stated fails. With a canvas of 900 by 1200 for page 1 and a highlight
  whose \<^verbatim>\<open>sourcePageWidth\<close> is 0, the result is not \<^verbatim>\<open>null\<close> but a style object whose
  left edge and width are \<^verbatim>\<open>Infinity\<close>.
\<close>

theorem zero_source_width_yields_style:
  "getHighlightStyle [1 \<mapsto> \<lparr>width = 900, height = 1200\<rparr>]
     \<lparr>id_h = ''highlight-0-0'', page = 0,
      bbox = \<lparr>x0 = 10, y0 = 20, x1 = 110, y1 = 40\<rparr>,
      sourcePageWidth = 0, sourcePageHeight = 800\<rparr>
   = Some \<lparr>left_px = PInf, top_px = Fin 30, width_px = PInf, height_px = Fin 30\<rparr>"
  by (simp add: getHighlightStyle_def js_div_def Let_def)

section \<open>The claim about a page that is not rendered yet\<close>




section \<open>The claim about the scroll tracker\<close>

text \<open>
  Claim C8. On a scroll event, if some page with a mounted element has its top edge in
  the top half of the container, the current page becomes the first such page in
  ascending page order, displayed 1-based; in particular, when page 0 has its top edge
  there (the list is scrolled to the top), page 0 is reported, displayed as page 1. If
  no page has its top edge there, the state is unchanged. Before any scroll event the
  displayed page is 1.
\<close>

theorem scroll_reports_first_page_in_top_half:
  "((k, True) \<in> set (pageRefs st) \<and> in_top_half g k \<longrightarrow>
      (\<exists>j. currentPage (handleScroll g st) = j + 1
           \<and> (j, True) \<in> set (pageRefs st) \<and> in_top_half g j \<and> j \<le> k
           \<and> (\<forall>i. (i, True) \<in> set (pageRefs st) \<and> in_top_half g i \<longrightarrow> j \<le> i)))
   \<and> ((0, True) \<in> set (pageRefs st) \<and> in_top_half g 0 \<longrightarrow>
        currentPage (handleScroll g st) = 1)
   \<and> ((\<forall>i. (i, True) \<in> set (pageRefs st) \<longrightarrow> \<not> in_top_half g i) \<longrightarrow>
        handleScroll g st = st)
   \<and> currentPage (initial_viewer t0) = 1"
proof -
  let ?es = "object_entries (pageRefs st)"
  have first: "\<exists>j. currentPage (handleScroll g st) = j + 1
           \<and> (j, True) \<in> set (pageRefs st) \<and> in_top_half g j \<and> j \<le> m
           \<and> (\<forall>i. (i, True) \<in> set (pageRefs st) \<and> in_top_half g i \<longrightarrow> j \<le> i)"
    if m: "(m, True) \<in> set (pageRefs st)" "in_top_half g m" for m
  proof -
    from m have "scan_pages g ?es \<noteq> None"
      by (auto simp: scan_pages_None set_object_entries)
    then obtain n where n: "scan_pages g ?es = Some n"
      by blast
    from scan_pages_Some [OF sorted_object_entries n]
    obtain j where j: "n = j + 1" "(j, True) \<in> set (pageRefs st)" "in_top_half g j"
      "\<forall>i. (i, True) \<in> set (pageRefs st) \<and> in_top_half g i \<longrightarrow> j \<le> i"
      by (auto simp: set_object_entries)
    from n j(1) have "currentPage (handleScroll g st) = j + 1"
      by (simp add: handleScroll_def)
    moreover from j(4) m have "j \<le> m"
      by blast
    ultimately show ?thesis
      using j by blast
  qed
  have top: "currentPage (handleScroll g st) = 1"
    if z: "(0, True) \<in> set (pageRefs st)" "in_top_half g 0"
  proof -
    from first [OF z] obtain j where "currentPage (handleScroll g st) = j + 1" and "j \<le> 0"
      by blast
    then show ?thesis by simp
  qed
  have none: "handleScroll g st = st"
    if "\<forall>i. (i, True) \<in> set (pageRefs st) \<longrightarrow> \<not> in_top_half g i"
  proof -
    from that have "scan_pages g ?es = None"
      by (simp add: scan_pages_None set_object_entries)
    then show ?thesis
      by (simp add: handleScroll_def)
  qed
  have init: "currentPage (initial_viewer t0) = 1"
    by (simp add: initial_viewer_def)
  from first top none init show ?thesis
    by blast
qed

theorem scroll_reports_first_page_in_top_half_witness:
  "(0, True) \<in> set (pageRefs ((initial_viewer 0)\<lparr>pageRefs := [(1, True), (0, True), (2, True)],
                                                currentPage := 3\<rparr>))
   \<and> in_top_half \<lparr>containerTop = 60, clientHeight = 800,
                   rectTop = (\<lambda>k. 76 + 1000 * real k)\<rparr> 0
   \<and> currentPage (handleScroll \<lparr>containerTop = 60, clientHeight = 800,
                                 rectTop = (\<lambda>k. 76 + 1000 * real k)\<rparr>
        ((initial_viewer 0)\<lparr>pageRefs := [(1, True), (0, True), (2, True)],
                            currentPage := 3\<rparr>)) = 1
   \<and> \<not> in_top_half \<lparr>containerTop = 60, clientHeight = 800,
                      rectTop = (\<lambda>k. 1000 * real k - 424)\<rparr> 0
   \<and> \<not> in_top_half \<lparr>containerTop = 60, clientHeight = 800,
                      rectTop = (\<lambda>k. 1000 * real k - 424)\<rparr> 1
   \<and> \<not> in_top_half \<lparr>containerTop = 60, clientHeight = 800,
                      rectTop = (\<lambda>k. 1000 * real k - 424)\<rparr> 2
   \<and> currentPage (handleScroll \<lparr>containerTop = 60, clientHeight = 800,
                                 rectTop = (\<lambda>k. 1000 * real k - 424)\<rparr>
        ((initial_viewer 0)\<lparr>pageRefs := [(1, True), (0, True), (2, True)],
                            currentPage := 3\<rparr>)) = 3
   \<and> (1, True) \<in> set (pageRefs ((initial_viewer 0)\<lparr>pageRefs := [(1, True), (0, True), (2, True)],
                                                currentPage := 3\<rparr>))
   \<and> in_top_half \<lparr>containerTop = 60, clientHeight = 800,
                   rectTop = (\<lambda>k. 1000 * real k - 900)\<rparr> 1
   \<and> currentPage (handleScroll \<lparr>containerTop = 60, clientHeight = 800,
                                 rectTop = (\<lambda>k. 1000 * real k - 900)\<rparr>
        ((initial_viewer 0)\<lparr>pageRefs := [(1, True), (0, True), (2, True)],
                            currentPage := 3\<rparr>)) = 2"
proof -
  let ?S = "(initial_viewer 0)\<lparr>pageRefs := [(1, True), (0, True), (2, True)],
                              currentPage := 3\<rparr>"
  let ?G3 = "\<lparr>containerTop = 60, clientHeight = 800, rectTop = (\<lambda>k. 1000 * real k - 900)\<rparr>"
  have h3: "(1, True) \<in> set (pageRefs ?S) \<and> in_top_half ?G3 1"
    by (simp add: in_top_half_def)
  have n3: "\<not> in_top_half ?G3 0"
    by (simp add: in_top_half_def)
  from scroll_reports_first_page_in_top_half [where st = "?S" and g = "?G3" and k = 1] h3
  obtain j where j: "currentPage (handleScroll ?G3 ?S) = j + 1" "in_top_half ?G3 j" "j \<le> 1"
    by blast
  from j(2) n3 have "j \<noteq> 0"
    by (intro notI) simp
  with j(3) have "j = 1"
    by simp
  with j(1) have r3: "currentPage (handleScroll ?G3 ?S) = 2"
    by simp
  let ?G1 = "\<lparr>containerTop = 60, clientHeight = 800, rectTop = (\<lambda>k. 76 + 1000 * real k)\<rparr>"
  let ?G2 = "\<lparr>containerTop = 60, clientHeight = 800, rectTop = (\<lambda>k. 1000 * real k - 424)\<rparr>"
  have h1: "(0, True) \<in> set (pageRefs ?S) \<and> in_top_half ?G1 0"
    by (simp add: in_top_half_def)
  have n0: "\<not> in_top_half ?G2 0" and n1: "\<not> in_top_half ?G2 1" and n2: "\<not> in_top_half ?G2 2"
    by (simp_all add: in_top_half_def)
  have h2: "\<forall>i. (i, True) \<in> set (pageRefs ?S) \<longrightarrow> \<not> in_top_half ?G2 i"
    using n0 n1 n2 by auto
  from scroll_reports_first_page_in_top_half [where st = "?S" and g = "?G1" and k = 0] h1
  have r1: "currentPage (handleScroll ?G1 ?S) = 1"
    by blast
  from scroll_reports_first_page_in_top_half [where st = "?S" and g = "?G2" and k = 0] h2
  have "handleScroll ?G2 ?S = ?S"
    by blast
  then have r2: "currentPage (handleScroll ?G2 ?S) = 3"
    by simp
  from h1 r1 n0 n1 n2 r2 h3 r3 show ?thesis
    by blast
qed

section \<open>The claim about the citation bridge\<close>

text \<open>
  Claim C10. When the clicked citation has no \<^verbatim>\<open>bounding_boxes\<close> or an empty list of
  them, \<^verbatim>\<open>handleCitationClick\<close> leaves the viewer as it is: no batch is installed, no
  scroll is requested, no timer is started. All the handler does is log the click.
\<close>

theorem click_without_boxes_leaves_viewer:
  assumes "bounding_boxes c = None \<or> bounding_boxes c = Some []"
  shows "pdfViewerRef (handleCitationClick c a) = pdfViewerRef a
         \<and> handleCitationClick c a = a\<lparr>console := console a @ [c]\<rparr>"
proof -
  from assms have "handleCitationClick c a = a\<lparr>console := console a @ [c]\<rparr>"
    by (auto simp: handleCitationClick_def Let_def split: option.splits)
  then show ?thesis by simp
qed

theorem click_without_boxes_leaves_viewer_witness:
  "(bounding_boxes \<lparr>citation.page = 3, bounding_boxes = Some [], page_width = 612,
        page_height = 792, text_c = Some ''quoted''\<rparr> = None
    \<or> bounding_boxes \<lparr>citation.page = 3, bounding_boxes = Some [], page_width = 612,
        page_height = 792, text_c = Some ''quoted''\<rparr> = Some [])
   \<and> pdfViewerRef (handleCitationClick
        \<lparr>citation.page = 3, bounding_boxes = Some [], page_width = 612,
          page_height = 792, text_c = Some ''quoted''\<rparr>
        \<lparr>pdfViewerRef = Some (initial_viewer 0), console = []\<rparr>)
      = Some (initial_viewer 0)"
proof -
  let ?c = "\<lparr>citation.page = 3, bounding_boxes = Some [], page_width = 612,
        page_height = 792, text_c = Some ''quoted''\<rparr>"
  have h: "bounding_boxes ?c = None \<or> bounding_boxes ?c = Some []"
    by simp
  from click_without_boxes_leaves_viewer [OF h, of "\<lparr>pdfViewerRef = Some (initial_viewer 0), console = []\<rparr>"]
  have "pdfViewerRef (handleCitationClick ?c \<lparr>pdfViewerRef = Some (initial_viewer 0), console = []\<rparr>)
      = Some (initial_viewer 0)"
    by simp
  with h show ?thesis by blast
qed

end
